theory Spec2Isabelle
  imports Main "HOL-Library.Sublist"
begin

section \<open>Strings\<close>

text \<open>
  A Python \<^verbatim>\<open>str\<close> is modelled as a \<^typ>\<open>string\<close>: the list of its code points,
  for text whose code points are below 256. On that range the three character
  classes the program relies on are exactly the following ones:
  \<^verbatim>\<open>\d\<close> matches the ten ASCII digits, \<^verbatim>\<open>\s\<close> matches the code points
  9 to 13, 28 to 32, 133 and 160, and \<^verbatim>\<open>str.lower\<close> adds 32 to the code points
  65 to 90 and 192 to 222 other than 215.
\<close>

definition is_digit :: "char \<Rightarrow> bool" where
  "is_digit c = (let n = (of_char c :: nat) in 48 \<le> n \<and> n \<le> 57)"

definition is_space :: "char \<Rightarrow> bool" where
  "is_space c =
     (let n = (of_char c :: nat)
      in (9 \<le> n \<and> n \<le> 13) \<or> (28 \<le> n \<and> n \<le> 32) \<or> n = 133 \<or> n = 160)"

definition lower_char :: "char \<Rightarrow> char" where
  "lower_char c =
     (let n = (of_char c :: nat)
      in if (65 \<le> n \<and> n \<le> 90) \<or> (192 \<le> n \<and> n \<le> 222 \<and> n \<noteq> 215)
         then char_of (n + 32) else c)"

text \<open>\<^verbatim>\<open>s.lower()\<close>\<close>

definition lower :: "string \<Rightarrow> string" where
  "lower s = map lower_char s"

section \<open>Configuration (config.py)\<close>

definition RCT_QUERY :: string where
  \<open>RCT_QUERY =
     ''("Randomized Controlled Trial"[Publication Type] OR '' @
     ''"Randomized Controlled Trials as Topic"[MeSH Terms] OR '' @
     ''"Random Allocation"[MeSH Terms] OR '' @
     ''"randomized"[Title/Abstract] OR '' @
     ''"randomised"[Title/Abstract] OR '' @
     ''"randomly"[Title/Abstract])''\<close>

definition CRITICAL_QUERY :: string where
  \<open>CRITICAL_QUERY =
     ''('' @
     ''"critical care"[MeSH Terms] OR '' @
     ''"intensive care units"[MeSH Terms] OR '' @
     ''"critical illness"[MeSH Terms] OR '' @
     ''"ICU"[Title/Abstract] OR '' @
     ''"high dependency unit*"[Title/Abstract] OR '' @
     ''"respiration, artificial"[MeSH Terms] OR '' @
     ''"intensive care"[Title/Abstract] OR '' @
     ''"intensive care unit"[Title/Abstract] OR '' @
     ''"critical illness"[Title/Abstract] OR '' @
     ''"Critical Care"[Title/Abstract] OR '' @
     ''"critical ill*"[Title/Abstract] OR '' @
     ''"Intensive therapy"[Title/Abstract] OR '' @
     ''"mechanical ventilation"[Title/Abstract] OR '' @
     ''"mechanical ventilat*"[Title/Abstract]) OR '' @
     ''("mechanical"[Title/Abstract] AND "ventilation"[Title/Abstract])'' @
     '')''\<close>

definition HUMANS_FILTER :: string where
  \<open>HUMANS_FILTER = ''"humans"[MeSH Terms]''\<close>

definition EXCLUSION_QUERY :: string where
  \<open>EXCLUSION_QUERY =
     ''NOT ("systematic review"[Publication Type] OR '' @
     ''"Meta-Analysis"[Publication Type] OR '' @
     ''"Review"[Publication Type])''\<close>

definition JOURNALS :: "string list" where
  "JOURNALS =
     [''The New England Journal of Medicine'',
      ''Lancet'',
      ''JAMA'',
      ''American Journal of Respiratory and Critical Care Medicine'',
      ''Intensive Care Medicine'',
      ''Critical Care Medicine'',
      ''Critical care'',
      ''Chest'',
      ''BMJ'',
      ''Annals of Intensive care'',
      ''JAMA Internal Medicine'',
      ''JAMA Network Open'',
      ''Annals of the American Thoracic Society'']"

definition DATE_QUERY :: string where
  \<open>DATE_QUERY = ''("2020/01/01"[PDAT]:"2025/01/01"[PDAT])''\<close>

text \<open>
  \<^verbatim>\<open>LINK_TEMPLATE.format(pmid=p)\<close> for the template
  \<^verbatim>\<open>"https://pubmed.ncbi.nlm.nih.gov/{pmid}/"\<close> and the text \<open>p\<close> that Python's
  \<^verbatim>\<open>format\<close> puts for the argument.
\<close>

definition LINK_TEMPLATE_format :: "string \<Rightarrow> string" where
  "LINK_TEMPLATE_format p = ''https://pubmed.ncbi.nlm.nih.gov/'' @ p @ ''/''"

definition OUTPUT_HEADERS :: "string list" where
  "OUTPUT_HEADERS =
     [''Journal_TTL'',
      ''Journal_ABBRV'',
      ''Title'',
      ''Year'',
      ''Pages'',
      ''Issue'',
      ''Volume'',
      ''First Author'',
      ''First Author Affiliation'',
      ''Last Author'',
      ''Last Author Affiliation'',
      ''DOI'',
      ''Link'',
      ''Authors'']"

section \<open>Query construction (PubMedScraper.construct_query)\<close>

text \<open>
  The f-string of \<^verbatim>\<open>construct_query\<close>, piece by piece: the opening parenthesis,
  the RCT and critical-care clauses, the parenthesized journal clause, the date
  clause and a blank; then either the closing parenthesis alone or the human filter
  and the closing parenthesis; then a blank, the word NOT, a blank and the
  exclusion query.
\<close>

definition construct_query :: "string \<Rightarrow> string" where
  \<open>construct_query journal =
     (let journal_query = ''"'' @ journal @ ''"[Journal]''
      in ''('' @ RCT_QUERY @ '' AND '' @ CRITICAL_QUERY @ '' AND ('' @ journal_query @
         '') AND '' @ DATE_QUERY @ '' '' @
         (if lower journal = ''annals of intensive care'' then '')''
          else ''AND '' @ HUMANS_FILTER @ '')'') @
         '' '' @
         ''NOT '' @ EXCLUSION_QUERY)\<close>

section \<open>MEDLINE records and normalized rows\<close>

text \<open>
  A value of a raw record is a single string or a list of strings; a raw record
  maps field tags to values, and a tag may be missing. The dictionary that
  \<^verbatim>\<open>process_record\<close> returns is modelled as the list of its items in insertion
  order, so the empty dictionary is the empty list.
\<close>

datatype pyval = Str string | Lst "string list"

type_synonym raw_record = "string \<Rightarrow> pyval option"

type_synonym row = "(string \<times> pyval) list"

datatype py_exception = TypeError | OtherException string

text \<open>\<^verbatim>\<open>rec.get(key, dflt)\<close>\<close>

definition dict_get :: "raw_record \<Rightarrow> string \<Rightarrow> pyval \<Rightarrow> pyval" where
  "dict_get rec key dflt = (case rec key of None \<Rightarrow> dflt | Some v \<Rightarrow> v)"

text \<open>The truth value of a string or a list: it is not empty.\<close>

fun truthy :: "pyval \<Rightarrow> bool" where
  "truthy (Str s) = (s \<noteq> [])"
| "truthy (Lst xs) = (xs \<noteq> [])"

text \<open>
  \<^verbatim>\<open>v[0] if v else ""\<close> and \<^verbatim>\<open>v[-1] if v else ""\<close>: indexing a list gives an
  element, indexing a string gives the string of one character.
\<close>

fun item_first :: "pyval \<Rightarrow> pyval" where
  "item_first (Str []) = Str []"
| "item_first (Str (c # cs)) = Str [c]"
| "item_first (Lst []) = Str []"
| "item_first (Lst (x # xs)) = Str x"

fun item_last :: "pyval \<Rightarrow> pyval" where
  "item_last (Str []) = Str []"
| "item_last (Str (c # cs)) = Str [last (c # cs)]"
| "item_last (Lst []) = Str []"
| "item_last (Lst (x # xs)) = Str (last (x # xs))"

text \<open>
  \<^verbatim>\<open>re.search(r"\d{4}", dp)\<close> and its \<^verbatim>\<open>group(0)\<close>: the scan tries every start
  position from the left and matches where four digits stand.
\<close>

fun re_search_year :: "string \<Rightarrow> string option" where
  "re_search_year [] = None"
| "re_search_year (c # cs) =
     (if 4 \<le> length (c # cs) \<and> list_all is_digit (take 4 (c # cs))
      then Some (take 4 (c # cs))
      else re_search_year cs)"

text \<open>
  \<^verbatim>\<open>re.search(r"(10\.\S+)", lid)\<close> and its \<^verbatim>\<open>group(1)\<close>: at the first start
  position where \<^verbatim>\<open>10.\<close> stands before a character that is not white space, the
  match takes every character up to the next white space.
\<close>

fun re_search_doi :: "string \<Rightarrow> string option" where
  "re_search_doi [] = None"
| "re_search_doi (c # cs) =
     (if prefix ''10.'' (c # cs) \<and> takeWhile (\<lambda>x. \<not> is_space x) (drop 3 (c # cs)) \<noteq> []
      then Some (''10.'' @ takeWhile (\<lambda>x. \<not> is_space x) (drop 3 (c # cs)))
      else re_search_doi cs)"

text \<open>\<^verbatim>\<open>s.split(sep)[0]\<close> for a separator that is not empty.\<close>

fun split_first :: "string \<Rightarrow> string \<Rightarrow> string" where
  "split_first sep [] = []"
| "split_first sep (c # cs) = (if prefix sep (c # cs) then [] else c # split_first sep cs)"

text \<open>
  Python's \<^verbatim>\<open>repr\<close> of a string and \<^verbatim>\<open>str\<close> of a list of strings, which
  \<^verbatim>\<open>format\<close> puts for a list.
\<close>

definition is_printable :: "char \<Rightarrow> bool" where
  "is_printable c =
     (let n = (of_char c :: nat) in (32 \<le> n \<and> n \<le> 126) \<or> (161 \<le> n \<and> n \<noteq> 173))"

definition hex_digit :: "nat \<Rightarrow> char" where
  "hex_digit d = (if d < 10 then char_of (48 + d) else char_of (87 + d))"

definition repr_char :: "char \<Rightarrow> char \<Rightarrow> string" where
  "repr_char quote c =
     (if c = quote \<or> c = CHR 0x5C then [CHR 0x5C, c]
      else if c = CHR 0x09 then [CHR 0x5C, CHR ''t'']
      else if c = CHR 0x0A then [CHR 0x5C, CHR ''n'']
      else if c = CHR 0x0D then [CHR 0x5C, CHR ''r'']
      else if \<not> is_printable c
        then [CHR 0x5C, CHR ''x'', hex_digit ((of_char c :: nat) div 16),
              hex_digit ((of_char c :: nat) mod 16)]
      else [c])"

definition py_repr :: "string \<Rightarrow> string" where
  "py_repr s =
     (let quote = (if CHR 0x27 \<in> set s \<and> CHR 0x22 \<notin> set s then CHR 0x22 else CHR 0x27)
      in [quote] @ concat (map (repr_char quote) s) @ [quote])"

fun join_comma :: "string list \<Rightarrow> string" where
  "join_comma [] = []"
| "join_comma [x] = x"
| "join_comma (x # y # ys) = x @ '', '' @ join_comma (y # ys)"

fun format_value :: "pyval \<Rightarrow> string" where
  "format_value (Str s) = s"
| "format_value (Lst xs) = ''['' @ join_comma (map py_repr xs) @ '']''"

section \<open>Record normalization (PubMedScraper.process_record)\<close>

text \<open>The year: \<^verbatim>\<open>re.search\<close> raises \<^verbatim>\<open>TypeError\<close> on a list.\<close>

definition year_of :: "pyval \<Rightarrow> py_exception + string" where
  "year_of dp =
     (case dp of
        Lst xs \<Rightarrow> Inl TypeError
      | Str s \<Rightarrow> Inr (case re_search_year s of Some y \<Rightarrow> y | None \<Rightarrow> []))"

text \<open>The DOI from the \<^verbatim>\<open>LID\<close> field, empty when the field gives none.\<close>

definition lid_doi :: "pyval \<Rightarrow> py_exception + string" where
  "lid_doi lid =
     (if truthy lid
      then (case lid of
              Lst xs \<Rightarrow> Inl TypeError
            | Str s \<Rightarrow> Inr (case re_search_doi s of Some d \<Rightarrow> d | None \<Rightarrow> []))
      else Inr [])"

text \<open>
  The DOI from the \<^verbatim>\<open>AID\<close> field: the loop over a list stops at the first entry
  that contains \<^verbatim>\<open>[doi]\<close>.
\<close>

fun aid_list_doi :: "string list \<Rightarrow> string" where
  "aid_list_doi [] = []"
| "aid_list_doi (aid # aids) =
     (if sublist ''[doi]'' aid then split_first '' [doi]'' aid else aid_list_doi aids)"

definition aid_doi :: "pyval \<Rightarrow> string" where
  "aid_doi aids =
     (case aids of
        Lst xs \<Rightarrow> aid_list_doi xs
      | Str s \<Rightarrow> (if sublist ''[doi]'' s then split_first '' [doi]'' s else []))"

text \<open>The body of the \<^verbatim>\<open>try\<close> block: the row, or the exception raised.\<close>

definition process_fields :: "raw_record \<Rightarrow> py_exception + row" where
  "process_fields rec =
     (let journal_title = dict_get rec ''JT'' (Str []);
          journal_abstract = dict_get rec ''TA'' (Str []);
          title = dict_get rec ''TI'' (Str []);
          dp = dict_get rec ''DP'' (Str [])
      in case year_of dp of
           Inl e \<Rightarrow> Inl e
         | Inr year \<Rightarrow>
            (let issue = dict_get rec ''IP'' (Str []);
                 volume = dict_get rec ''VI'' (Str []);
                 pages = dict_get rec ''PG'' (Str []);
                 authors = dict_get rec ''AU'' (Lst []);
                 first_author = item_first authors;
                 last_author = item_last authors;
                 affiliations = dict_get rec ''AD'' (Str []);
                 first_author_affiliation = item_first affiliations;
                 last_author_affiliation = item_last affiliations;
                 lid = dict_get rec ''LID'' (Str [])
             in case lid_doi lid of
                  Inl e \<Rightarrow> Inl e
                | Inr doi_lid \<Rightarrow>
                   (let doi = (if doi_lid = []
                               then (case rec ''AID'' of
                                       None \<Rightarrow> doi_lid
                                     | Some aids \<Rightarrow> aid_doi aids)
                               else doi_lid);
                        pmid = dict_get rec ''PMID'' (Str []);
                        link = (if truthy pmid then LINK_TEMPLATE_format (format_value pmid)
                                else [])
                    in Inr [(''Journal_TTL'', journal_title),
                            (''Journal_ABBRV'', journal_abstract),
                            (''Title'', title),
                            (''Year'', Str year),
                            (''Pages'', pages),
                            (''Issue'', issue),
                            (''Volume'', volume),
                            (''First Author'', first_author),
                            (''First Author Affiliation'', first_author_affiliation),
                            (''Last Author'', last_author),
                            (''Last Author Affiliation'', last_author_affiliation),
                            (''DOI'', Str doi),
                            (''Link'', Str link),
                            (''Authors'', authors)])))"

text \<open>\<^verbatim>\<open>process_record\<close>: an exception is logged and the empty dictionary returned.\<close>

definition process_record :: "raw_record \<Rightarrow> row" where
  "process_record rec = (case process_fields rec of Inl e \<Rightarrow> [] | Inr r \<Rightarrow> r)"

section \<open>Fetching (PubMedScraper.fetch_records)\<close>

text \<open>
  The two collaborators. \<open>esearch\<close> stands for \<^verbatim>\<open>Entrez.esearch\<close> followed by
  \<^verbatim>\<open>Entrez.read\<close>: for a query and a cap it gives the dictionary of search results
  or raises. \<open>efetch\<close> stands for \<^verbatim>\<open>Entrez.efetch\<close> followed by
  \<^verbatim>\<open>Medline.parse\<close>: for a list of identifiers it gives the records or raises.
  \<^verbatim>\<open>fetch_records\<close> is modelled with the list of the calls it makes, in order.
  An exception is one of class \<^verbatim>\<open>Exception\<close>, which the handler of
  \<^verbatim>\<open>fetch_records\<close> catches.
\<close>

record services =
  esearch :: "string \<Rightarrow> nat \<Rightarrow> py_exception + (string \<Rightarrow> string list option)"
  efetch :: "string list \<Rightarrow> py_exception + raw_record list"

datatype call = ESearch string nat | EFetch "string list"

definition fetch_records :: "services \<Rightarrow> string \<Rightarrow> nat \<Rightarrow> raw_record list \<times> call list" where
  "fetch_records svc query retmax =
     (case esearch svc query retmax of
        Inl e \<Rightarrow> ([], [ESearch query retmax])
      | Inr search_results \<Rightarrow>
         (let pmid_list = (case search_results ''IdList'' of None \<Rightarrow> [] | Some ids \<Rightarrow> ids)
          in if pmid_list = [] then ([], [ESearch query retmax])
             else (case efetch svc pmid_list of
                     Inl e \<Rightarrow> ([], [ESearch query retmax, EFetch pmid_list])
                   | Inr records \<Rightarrow> (records, [ESearch query retmax, EFetch pmid_list]))))"

section \<open>The run (PubMedScraper.run)\<close>

text \<open>
  The inner loop over the records of one journal: a processed record is appended
  to \<^verbatim>\<open>all_data\<close> when the dictionary is not empty.
\<close>

fun process_all :: "row list \<Rightarrow> raw_record list \<Rightarrow> row list" where
  "process_all all_data [] = all_data"
| "process_all all_data (rec # records) =
     (let processed = process_record rec
      in process_all (if processed \<noteq> [] then all_data @ [processed] else all_data) records)"

text \<open>
  The loop over the journals. \<open>max_queries\<close> is \<^verbatim>\<open>config.MAX_QUERIES\<close>, the
  default of \<^verbatim>\<open>retmax\<close>, which config.py does not define. The result is
  \<^verbatim>\<open>all_data\<close> as it is handed to \<^verbatim>\<open>update_excel\<close>.
\<close>

fun run_journals :: "services \<Rightarrow> nat \<Rightarrow> row list \<Rightarrow> string list \<Rightarrow> row list" where
  "run_journals svc max_queries all_data [] = all_data"
| "run_journals svc max_queries all_data (journal # journals) =
     (let query = construct_query journal;
          records = fst (fetch_records svc query max_queries)
      in if records = [] then run_journals svc max_queries all_data journals
         else run_journals svc max_queries (process_all all_data records) journals)"

definition run :: "services \<Rightarrow> nat \<Rightarrow> row list" where
  "run svc max_queries = run_journals svc max_queries [] JOURNALS"

section \<open>Notions used to state the properties\<close>

text \<open>
  Four digits stand at position \<open>i\<close> of a text; and \<^verbatim>\<open>10.\<close> stands at position
  \<open>i\<close> of a text, followed by a character that is not white space.
\<close>

definition four_digits_at :: "string \<Rightarrow> nat \<Rightarrow> bool" where
  "four_digits_at s i = (i + 4 \<le> length s \<and> list_all is_digit (take 4 (drop i s)))"

definition doi_at :: "string \<Rightarrow> nat \<Rightarrow> bool" where
  "doi_at s i = (take 3 (drop i s) = ''10.'' \<and> i + 3 < length s \<and> \<not> is_space (s ! (i + 3)))"

text \<open>
  The year as the specification words it, to compare with the program: the runs of
  digits of a text, each as long as it can be, and the first of them that has
  exactly four digits (the empty string when there is none).
\<close>

function digit_runs :: "string \<Rightarrow> string list" where
  "digit_runs [] = []"
| "digit_runs (c # cs) =
     (if is_digit c then takeWhile is_digit (c # cs) # digit_runs (dropWhile is_digit cs)
      else digit_runs cs)"
  by pat_completeness auto
termination
  by (relation "measure length") (auto simp: length_dropWhile_le less_Suc_eq_le)

definition spec_year :: "string \<Rightarrow> string" where
  "spec_year dp = (case filter (\<lambda>r. length r = 4) (digit_runs dp) of [] \<Rightarrow> [] | r # rs \<Rightarrow> r)"

section \<open>Properties\<close>

subsection \<open>Occurrences of a text that overlap\<close>

text \<open>
  When a text \<open>C\<close> stands at two places that overlap, every character of \<open>C\<close> is
  one of the characters by which the two places differ.
\<close>

lemma overlap_set_left:
  "C @ X = Y @ C \<Longrightarrow> Y \<noteq> [] \<Longrightarrow> set C \<subseteq> set Y"
proof (induction "length C" arbitrary: C X rule: less_induct)
  case less
  from less.prems(1) obtain us where
    "(C = Y @ us \<and> us @ X = C) \<or> (C @ us = Y \<and> X = us @ C)"
    by (auto simp: append_eq_append_conv2)
  then show ?case
  proof
    assume h: "C = Y @ us \<and> us @ X = C"
    then have "us @ X = Y @ us" by simp
    moreover have "length us < length C" using h less.prems(2) by simp
    ultimately have "set us \<subseteq> set Y" using less.hyps less.prems(2) by blast
    then show ?thesis using h by auto
  next
    assume "C @ us = Y \<and> X = us @ C"
    then show ?thesis by auto
  qed
qed

lemma overlap_set_right:
  assumes "X @ C = C @ Y" "Y \<noteq> []"
  shows "set C \<subseteq> set Y"
proof -
  have "rev C @ rev X = rev Y @ rev C"
    using assms(1) by (metis rev_append)
  then have "set (rev C) \<subseteq> set (rev Y)"
    using assms(2) by (intro overlap_set_left) auto
  then show ?thesis by simp
qed

lemma common_suffix:
  assumes e: "U @ s = V @ B" and l: "length s \<le> length B"
  shows "\<exists>Y. B = Y @ s \<and> U = V @ Y"
proof -
  from iffD1[OF append_eq_append_conv2 e] obtain us where
    "(U = V @ us \<and> us @ s = B) \<or> (U @ us = V \<and> s = us @ B)" by blast
  then show ?thesis
  proof
    assume "U = V @ us \<and> us @ s = B"
    then show ?thesis by auto
  next
    assume h: "U @ us = V \<and> s = us @ B"
    with l have "us = []" by auto
    with h show ?thesis by auto
  qed
qed

lemma unique_occurrence:
  assumes eq: "p @ C @ s = A @ C @ B"
    and c: "c \<in> set C" and a: "c \<notin> set A" and b: "c \<notin> set B"
  shows "p = A"
proof -
  from iffD1[OF append_eq_append_conv2 eq] obtain us where
    "(p = A @ us \<and> us @ C @ s = C @ B) \<or> (p @ us = A \<and> C @ s = us @ C @ B)"
    by blast
  then show ?thesis
  proof
    assume h: "p = A @ us \<and> us @ C @ s = C @ B"
    then have e: "(us @ C) @ s = C @ B" by simp
    have "length ((us @ C) @ s) = length (C @ B)" by (simp only: e)
    then have "length s \<le> length B" by simp
    from common_suffix[OF e this] obtain Y where Y: "B = Y @ s" "us @ C = C @ Y"
      by blast
    show ?thesis
    proof (cases "Y = []")
      case True
      have "length (us @ C) = length (C @ Y)" by (simp only: Y(2))
      with True have "us = []" by simp
      with h show ?thesis by simp
    next
      case False
      with Y(2) have "set C \<subseteq> set Y" by (rule overlap_set_right)
      then show ?thesis using c b Y(1) by auto
    qed
  next
    assume h: "p @ us = A \<and> C @ s = us @ C @ B"
    then have e: "(us @ C) @ B = C @ s" by simp
    have "length ((us @ C) @ B) = length (C @ s)" by (simp only: e)
    then have "length B \<le> length s" by simp
    from common_suffix[OF e this] obtain X where X: "s = X @ B" "us @ C = C @ X"
      by blast
    show ?thesis
    proof (cases "us = []")
      case True
      with h show ?thesis by simp
    next
      case False
      from X(2) have "C @ X = us @ C" by simp
      then have "set C \<subseteq> set us" using False by (rule overlap_set_left)
      then show ?thesis using c a h by auto
    qed
  qed
qed


lemma J_notin_RCT: "CHR ''J'' \<notin> set RCT_QUERY"
  by (simp add: RCT_QUERY_def)

lemma J_notin_CRITICAL: "CHR ''J'' \<notin> set CRITICAL_QUERY"
  by (simp add: CRITICAL_QUERY_def)

lemma J_notin_rest:
  "CHR ''J'' \<notin> set DATE_QUERY" "CHR ''J'' \<notin> set HUMANS_FILTER"
  "CHR ''J'' \<notin> set EXCLUSION_QUERY"
  by (simp_all add: DATE_QUERY_def HUMANS_FILTER_def EXCLUSION_QUERY_def)

text \<open>
  C9. For every journal name \<open>N\<close> the query holds the journal-match clause, the
  name put unchanged between \<^verbatim>\<open>("\<close> and \<^verbatim>\<open>"[Journal])\<close>, at exactly one place:
  there is one and only one text \<open>p\<close> before an occurrence of the clause. The
  query is a function of the name and of the constants of config.py alone, so two
  calls with the same name give the same text.
\<close>

theorem construct_query_one_journal_clause:
  \<open>\<exists>!p. \<exists>s. construct_query N = p @ ''("'' @ N @ ''"[Journal])'' @ s\<close>
proof -
  define A where "A = ''('' @ RCT_QUERY @ '' AND '' @ CRITICAL_QUERY @ '' AND ''"
  define C where \<open>C = ''("'' @ N @ ''"[Journal])''\<close>
  define B where "B = '' AND '' @ DATE_QUERY @ '' '' @
         (if lower N = ''annals of intensive care'' then '')''
          else ''AND '' @ HUMANS_FILTER @ '')'') @ '' '' @ ''NOT '' @ EXCLUSION_QUERY"
  have q: "construct_query N = A @ C @ B"
    by (simp add: construct_query_def A_def B_def C_def)
  have c: "CHR ''J'' \<in> set C" by (simp add: C_def)
  have a: "CHR ''J'' \<notin> set A"
    using J_notin_RCT J_notin_CRITICAL by (simp add: A_def)
  have b: "CHR ''J'' \<notin> set B"
    using J_notin_rest by (simp add: B_def)
  have "\<exists>!p. \<exists>s. A @ C @ B = p @ C @ s"
  proof (rule ex1I[of _ A])
    show "\<exists>s. A @ C @ B = A @ C @ s" by blast
  next
    fix p
    assume "\<exists>s. A @ C @ B = p @ C @ s"
    then obtain s where "p @ C @ s = A @ C @ B" by auto
    then show "p = A" using c a b by (rule unique_occurrence)
  qed
  then show ?thesis
    unfolding q by (simp add: C_def)
qed

subsection \<open>The human-subjects clause\<close>

lemma lower_exempt_literal:
  "lower ''Annals of Intensive Care'' = ''annals of intensive care''"
  by code_simp

lemma lower_char_h: "lower_char (CHR ''h'') = CHR ''h''"
  by code_simp

lemma lower_char_u: "lower_char (CHR ''u'') = CHR ''u''"
  by code_simp

lemma exempt_chars:
  assumes "lower N = ''annals of intensive care''"
  shows "CHR ''h'' \<notin> set N" and "CHR ''u'' \<notin> set N" and "N \<noteq> []"
proof -
  have m: "lower_char c \<in> set (lower N)" if "c \<in> set N" for c
    using that by (simp add: lower_def)
  show "CHR ''h'' \<notin> set N"
  proof
    assume "CHR ''h'' \<in> set N"
    from m[OF this] show False unfolding lower_char_h assms by simp
  qed
  show "CHR ''u'' \<notin> set N"
  proof
    assume "CHR ''u'' \<in> set N"
    from m[OF this] show False unfolding lower_char_u assms by simp
  qed
  show "N \<noteq> []" using assms by (auto simp: lower_def)
qed

lemma pair_split:
  assumes "[a, b] = xs1 @ xs2"
  shows "(xs1 = [] \<and> xs2 = [a, b]) \<or> (xs1 = [a] \<and> xs2 = [b]) \<or> (xs1 = [a, b] \<and> xs2 = [])"
proof (cases xs1)
  case Nil
  then show ?thesis using assms by simp
next
  case (Cons x ys)
  note c1 = Cons
  show ?thesis
  proof (cases ys)
    case Nil
    then show ?thesis using assms c1 by simp
  next
    case (Cons y zs)
    then show ?thesis using assms c1 by simp
  qed
qed

lemma sublist_pair_append:
  assumes "sublist [a, b] (X @ Y)"
  shows "sublist [a, b] X \<or> sublist [a, b] Y \<or> (X \<noteq> [] \<and> last X = a \<and> Y \<noteq> [] \<and> hd Y = b)"
proof -
  from assms have "sublist [a, b] X \<or> sublist [a, b] Y \<or>
     (\<exists>xs1 xs2. [a, b] = xs1 @ xs2 \<and> suffix xs1 X \<and> prefix xs2 Y)"
    by (simp only: sublist_append)
  then consider "sublist [a, b] X" | "sublist [a, b] Y"
    | xs1 xs2 where "[a, b] = xs1 @ xs2" "suffix xs1 X" "prefix xs2 Y"
    by blast
  then show ?thesis
  proof cases
    case 1
    then show ?thesis by simp
  next
    case 2
    then show ?thesis by simp
  next
    case 3
    from pair_split[OF 3(1)] consider "xs1 = [] \<and> xs2 = [a, b]" | "xs1 = [a] \<and> xs2 = [b]"
      | "xs1 = [a, b] \<and> xs2 = []"
      by blast
    then show ?thesis
    proof cases
      case 1
      then have "prefix [a, b] Y" using 3(3) by simp
      then show ?thesis by (simp add: prefix_imp_sublist)
    next
      case 2
      then have "suffix [a] X" "prefix [b] Y" using 3(2,3) by simp_all
      then obtain P S where "X = P @ [a]" "Y = [b] @ S"
        unfolding suffix_def prefix_def by blast
      then show ?thesis by simp
    next
      case 3
      then have "suffix [a, b] X" using \<open>suffix xs1 X\<close> by simp
      then show ?thesis by (simp add: suffix_imp_sublist)
    qed
  qed
qed

lemma sublist_pair_around:
  assumes s: "sublist [a, b] (X @ N @ Y)"
    and a: "a \<notin> set N" and b: "b \<notin> set N" and n: "N \<noteq> []"
  shows "sublist [a, b] X \<or> sublist [a, b] Y"
proof -
  from sublist_pair_append[OF s] consider "sublist [a, b] X" | "sublist [a, b] (N @ Y)"
    | "hd (N @ Y) = b" by blast
  then show ?thesis
  proof cases
    case 1
    then show ?thesis by simp
  next
    case 2
    from sublist_pair_append[OF 2] consider "sublist [a, b] N" | "sublist [a, b] Y"
      | "last N = a" by blast
    then show ?thesis
    proof cases
      case 1
      then have "set [a, b] \<subseteq> set N" by (rule set_mono_sublist)
      then show ?thesis using a by simp
    next
      case 2
      then show ?thesis by simp
    next
      case 3
      then have "a \<in> set N" using n last_in_set by blast
      then show ?thesis using a by simp
    qed
  next
    case 3
    then have "hd N = b" using n by simp
    then have "b \<in> set N" using n hd_in_set by blast
    then show ?thesis using b by simp
  qed
qed

lemma hu_not_before:
  \<open>\<not> sublist ''hu'' (''('' @ RCT_QUERY @ '' AND '' @ CRITICAL_QUERY @ '' AND ("'')\<close>
  by code_simp

lemma hu_not_after:
  \<open>\<not> sublist ''hu'' (''"[Journal]) AND '' @ DATE_QUERY @ '' ) NOT '' @ EXCLUSION_QUERY)\<close>
  by code_simp

lemma hu_in_humans: "sublist ''hu'' HUMANS_FILTER"
  by code_simp

text \<open>
  C4. The query holds the human-subjects clause if and only if the journal name,
  compared without regard to case, differs from \<^verbatim>\<open>Annals of Intensive Care\<close>.
  For that journal the group is closed right after the date clause; for every
  other journal \<^verbatim>\<open>AND "humans"[MeSH Terms]\<close> stands between the date clause and the
  closing parenthesis of the group.
\<close>

theorem construct_query_humans_clause:
  \<open>(sublist HUMANS_FILTER (construct_query N) \<longleftrightarrow>
      lower N \<noteq> lower ''Annals of Intensive Care'') \<and>
    (lower N = lower ''Annals of Intensive Care'' \<longrightarrow>
      construct_query N =
        ''('' @ RCT_QUERY @ '' AND '' @ CRITICAL_QUERY @ '' AND ("'' @ N @ ''"[Journal]) AND '' @
        DATE_QUERY @ '' ) NOT '' @ EXCLUSION_QUERY) \<and>
    (lower N \<noteq> lower ''Annals of Intensive Care'' \<longrightarrow>
      construct_query N =
        ''('' @ RCT_QUERY @ '' AND '' @ CRITICAL_QUERY @ '' AND ("'' @ N @ ''"[Journal]) AND '' @
        DATE_QUERY @ '' AND '' @ HUMANS_FILTER @ '') NOT '' @ EXCLUSION_QUERY)\<close>
proof (cases "lower N = ''annals of intensive care''")
  case True
  define X where \<open>X = ''('' @ RCT_QUERY @ '' AND '' @ CRITICAL_QUERY @ '' AND ("''\<close>
  define Y where \<open>Y = ''"[Journal]) AND '' @ DATE_QUERY @ '' ) NOT '' @ EXCLUSION_QUERY\<close>
  have q: "construct_query N = X @ N @ Y"
    using True by (simp add: construct_query_def X_def Y_def)
  have "\<not> sublist HUMANS_FILTER (construct_query N)"
  proof
    assume "sublist HUMANS_FILTER (construct_query N)"
    with hu_in_humans have "sublist ''hu'' (X @ N @ Y)"
      unfolding q by (rule sublist_order.order_trans)
    then have "sublist ''hu'' X \<or> sublist ''hu'' Y"
      using exempt_chars[OF True] by (intro sublist_pair_around) auto
    then show False using hu_not_before hu_not_after by (simp add: X_def Y_def)
  qed
  then show ?thesis
    using True q by (simp add: lower_exempt_literal X_def Y_def)
next
  case False
  then have q: \<open>construct_query N =
        ''('' @ RCT_QUERY @ '' AND '' @ CRITICAL_QUERY @ '' AND ("'' @ N @ ''"[Journal]) AND '' @
        DATE_QUERY @ '' AND '' @ HUMANS_FILTER @ '') NOT '' @ EXCLUSION_QUERY\<close>
    by (simp add: construct_query_def)
  have "sublist HUMANS_FILTER (construct_query N)"
    unfolding q sublist_def by (metis append.assoc)
  then show ?thesis
    using False q by (simp add: lower_exempt_literal)
qed

theorem construct_query_humans_clause_witness:
  \<open>lower ''ANNALS of intensive care'' = lower ''Annals of Intensive Care'' \<and>
   \<not> sublist HUMANS_FILTER (construct_query ''ANNALS of intensive care'') \<and>
   lower ''Lancet'' \<noteq> lower ''Annals of Intensive Care'' \<and>
   sublist HUMANS_FILTER (construct_query ''Lancet'')\<close>
proof -
  have a: "lower ''ANNALS of intensive care'' = lower ''Annals of Intensive Care''" by code_simp
  have b: "lower ''Lancet'' \<noteq> lower ''Annals of Intensive Care''" by code_simp
  show ?thesis
    using a b construct_query_humans_clause [of "''ANNALS of intensive care''"]
      construct_query_humans_clause [of "''Lancet''"]
    by blast
qed

subsection \<open>The exclusion clause\<close>

text \<open>
  C1. For every journal name the query ends with the closing parenthesis of the
  main group followed by \<^verbatim>\<open>NOT NOT\<close> and the parenthesized disjunction of the
  three publication types: \<^verbatim>\<open>construct_query\<close> writes the word NOT before
  \<^verbatim>\<open>EXCLUSION_QUERY\<close>, which starts with NOT itself, so the disjunction is
  negated twice and not once.
\<close>

theorem construct_query_double_negation:
  \<open>suffix
     '') NOT NOT ("systematic review"[Publication Type] OR "Meta-Analysis"[Publication Type] OR "Review"[Publication Type])''
     (construct_query N)\<close>
proof -
  define P where \<open>P = ''('' @ RCT_QUERY @ '' AND '' @ CRITICAL_QUERY @ '' AND ("'' @ N @
      ''"[Journal]) AND '' @ DATE_QUERY @
      (if lower N = ''annals of intensive care'' then '' '' else '' AND '' @ HUMANS_FILTER)\<close>
  have \<open>construct_query N = P @
     '') NOT NOT ("systematic review"[Publication Type] OR "Meta-Analysis"[Publication Type] OR "Review"[Publication Type])''\<close>
    by (simp add: construct_query_def EXCLUSION_QUERY_def P_def)
  then show ?thesis by (simp only: suffix_def) blast
qed

subsection \<open>Affiliations\<close>

text \<open>
  C2. A record whose affiliation field is the single string
  \<^verbatim>\<open>Harvard Medical School\<close> gets the first character \<^verbatim>\<open>H\<close> as the first author's
  affiliation and the last character \<^verbatim>\<open>l\<close> as the last author's: the field is
  indexed as it is, and indexing a string gives a character. When the field is the
  list holding that string, the affiliation is the string.
\<close>

theorem scalar_affiliation_indexed_by_character:
  "map_of (process_record [''AD'' \<mapsto> Str ''Harvard Medical School''])
     ''First Author Affiliation'' = Some (Str ''H'') \<and>
   map_of (process_record [''AD'' \<mapsto> Str ''Harvard Medical School''])
     ''Last Author Affiliation'' = Some (Str ''l'') \<and>
   map_of (process_record [''AD'' \<mapsto> Lst [''Harvard Medical School'']])
     ''First Author Affiliation'' = Some (Str ''Harvard Medical School'')"
  by (simp add: process_record_def process_fields_def dict_get_def year_of_def lid_doi_def Let_def)

subsection \<open>Missing fields\<close>

text \<open>
  C6. When none of the twelve field tags that \<^verbatim>\<open>process_record\<close> reads is in the
  record, the body raises nothing and the row has the fourteen names of
  \<^verbatim>\<open>OUTPUT_HEADERS\<close>, in that order and each once; every value is the empty
  string, but for the author list, which is the empty list.
\<close>

theorem process_record_all_absent:
  assumes "list_all (\<lambda>k. rec k = None)
     [''JT'', ''TA'', ''TI'', ''DP'', ''IP'', ''VI'', ''PG'', ''AU'', ''AD'', ''LID'', ''AID'',
      ''PMID'']"
  shows "process_fields rec =
           Inr (map (\<lambda>h. (h, if h = ''Authors'' then Lst [] else Str [])) OUTPUT_HEADERS) \<and>
         process_record rec =
           map (\<lambda>h. (h, if h = ''Authors'' then Lst [] else Str [])) OUTPUT_HEADERS \<and>
         length (process_record rec) = 14 \<and> distinct (map fst (process_record rec))"
proof -
  have f: "process_fields rec =
           Inr (map (\<lambda>h. (h, if h = ''Authors'' then Lst [] else Str [])) OUTPUT_HEADERS)"
    using assms
    by (simp add: process_fields_def dict_get_def year_of_def lid_doi_def OUTPUT_HEADERS_def Let_def)
  then have r: "process_record rec =
           map (\<lambda>h. (h, if h = ''Authors'' then Lst [] else Str [])) OUTPUT_HEADERS"
    by (simp add: process_record_def)
  have "length (process_record rec) = 14" "distinct (map fst (process_record rec))"
    unfolding r by (simp_all add: OUTPUT_HEADERS_def comp_def)
  with f r show ?thesis by simp
qed

theorem process_record_all_absent_witness:
  "process_fields [''XX'' \<mapsto> Str ''unused''] =
     Inr [(''Journal_TTL'', Str []), (''Journal_ABBRV'', Str []), (''Title'', Str []),
          (''Year'', Str []), (''Pages'', Str []), (''Issue'', Str []), (''Volume'', Str []),
          (''First Author'', Str []), (''First Author Affiliation'', Str []),
          (''Last Author'', Str []), (''Last Author Affiliation'', Str []), (''DOI'', Str []),
          (''Link'', Str []), (''Authors'', Lst [])] \<and>
   length (process_record Map.empty) = 14"
  using process_record_all_absent [of "[''XX'' \<mapsto> Str ''unused'']"]
    process_record_all_absent [of Map.empty]
  by (simp add: OUTPUT_HEADERS_def)

subsection \<open>Records that raise\<close>

lemma process_fields_keys:
  "process_fields rec = Inr r \<Longrightarrow> map fst r = OUTPUT_HEADERS"
  by (auto simp: process_fields_def Let_def OUTPUT_HEADERS_def split: sum.splits)

lemma process_record_raises: "isl (process_fields rec) \<Longrightarrow> process_record rec = []"
  by (cases "process_fields rec") (simp_all add: process_record_def)

lemma process_record_returns:
  "\<not> isl (process_fields rec) \<Longrightarrow> map fst (process_record rec) = OUTPUT_HEADERS"
  by (cases "process_fields rec") (simp_all add: process_record_def process_fields_keys)

lemma process_record_nonempty:
  "\<not> isl (process_fields rec) \<Longrightarrow> process_record rec \<noteq> []"
  using process_record_returns [of rec] by (auto simp: OUTPUT_HEADERS_def)

lemma process_all_filter:
  "process_all all_data records =
     all_data @ map process_record (filter (\<lambda>r. \<not> isl (process_fields r)) records)"
proof (induction records arbitrary: all_data)
  case Nil
  show ?case by simp
next
  case (Cons r records)
  show ?case
  proof (cases "isl (process_fields r)")
    case True
    then show ?thesis using Cons.IH by (simp add: process_record_raises)
  next
    case False
    then show ?thesis using Cons.IH by (simp add: process_record_nonempty Let_def)
  qed
qed

text \<open>
  C7. A record for which the body of \<^verbatim>\<open>process_record\<close> raises gives the empty
  dictionary and the loop of \<^verbatim>\<open>run\<close> appends nothing for it; a record for which
  it does not raise gives a row with the fourteen names of \<^verbatim>\<open>OUTPUT_HEADERS\<close>,
  which is appended. So the loop appends exactly the rows of the records that do
  not raise, in their order, and every row it appends is complete.
\<close>

theorem failed_record_is_dropped:
  "(isl (process_fields rec) \<longrightarrow>
      process_record rec = [] \<and>
      process_all all_data (rec # records) = process_all all_data records) \<and>
   (\<not> isl (process_fields rec) \<longrightarrow>
      map fst (process_record rec) = OUTPUT_HEADERS \<and>
      process_all all_data (rec # records) =
        process_all (all_data @ [process_record rec]) records) \<and>
   process_all all_data records =
     all_data @ map process_record (filter (\<lambda>r. \<not> isl (process_fields r)) records) \<and>
   list_all (\<lambda>r. map fst r = OUTPUT_HEADERS)
     (map process_record (filter (\<lambda>r. \<not> isl (process_fields r)) records))"
proof -
  have "list_all (\<lambda>r. map fst r = OUTPUT_HEADERS)
     (map process_record (filter (\<lambda>r. \<not> isl (process_fields r)) records))"
    by (simp add: list_all_iff process_record_returns)
  then show ?thesis
    by (simp add: process_record_raises process_record_returns process_record_nonempty
        process_all_filter)
qed

theorem failed_record_is_dropped_witness:
  "isl (process_fields [''DP'' \<mapsto> Lst [''2021'']]) \<and>
   process_record [''DP'' \<mapsto> Lst [''2021'']] = [] \<and>
   process_all [] [[''DP'' \<mapsto> Lst [''2021'']]] = [] \<and>
   \<not> isl (process_fields [''DP'' \<mapsto> Str ''2021'']) \<and>
   map fst (process_record [''DP'' \<mapsto> Str ''2021'']) = OUTPUT_HEADERS"
proof -
  have a: "isl (process_fields [''DP'' \<mapsto> Lst [''2021'']])"
    by (simp add: process_fields_def dict_get_def year_of_def Let_def)
  have b: "\<not> isl (process_fields [''DP'' \<mapsto> Str ''2021''])"
    by (simp add: process_fields_def dict_get_def year_of_def lid_doi_def Let_def)
  show ?thesis
    using a b
      failed_record_is_dropped [of "[''DP'' \<mapsto> Lst [''2021'']]" "[]" "[]"]
      failed_record_is_dropped [of "[''DP'' \<mapsto> Str ''2021'']" "[]" "[]"]
    by simp
qed

subsection \<open>Fetching\<close>

text \<open>
  C8. \<^verbatim>\<open>fetch_records\<close> always returns a list. When the search raises, the list
  is empty and only the search was called. When the search gives no identifier
  (no \<^verbatim>\<open>IdList\<close>, or an empty one), the list is empty and the fetch was not
  called. When the fetch raises, the list is empty. Otherwise the list is the
  fetched records. A journal for which the list is empty leaves \<^verbatim>\<open>all_data\<close> as
  it was and the run goes on with the next journal.
\<close>

theorem fetch_records_catches:
  "(\<forall>e. esearch svc query retmax = Inl e \<longrightarrow>
      fetch_records svc query retmax = ([], [ESearch query retmax])) \<and>
   (\<forall>res. esearch svc query retmax = Inr res \<and>
        (res ''IdList'' = None \<or> res ''IdList'' = Some []) \<longrightarrow>
      fetch_records svc query retmax = ([], [ESearch query retmax])) \<and>
   (\<forall>res ids e. esearch svc query retmax = Inr res \<and> res ''IdList'' = Some ids \<and>
        ids \<noteq> [] \<and> efetch svc ids = Inl e \<longrightarrow>
      fetch_records svc query retmax = ([], [ESearch query retmax, EFetch ids])) \<and>
   (\<forall>res ids records. esearch svc query retmax = Inr res \<and> res ''IdList'' = Some ids \<and>
        ids \<noteq> [] \<and> efetch svc ids = Inr records \<longrightarrow>
      fetch_records svc query retmax = (records, [ESearch query retmax, EFetch ids])) \<and>
   (fst (fetch_records svc (construct_query journal) max_queries) = [] \<longrightarrow>
      run_journals svc max_queries all_data (journal # journals) =
        run_journals svc max_queries all_data journals)"
  by (auto simp: fetch_records_def Let_def)


theorem fetch_records_catches_witness:
  "fetch_records
     \<lparr>esearch = (\<lambda>q n. Inl (OtherException ''HTTPError'')), efetch = (\<lambda>ids. Inr [Map.empty])\<rparr>
     ''q'' 5 = ([], [ESearch ''q'' 5]) \<and>
   fetch_records
     \<lparr>esearch = (\<lambda>q n. Inr [''IdList'' \<mapsto> []]), efetch = (\<lambda>ids. Inr [Map.empty])\<rparr>
     ''q'' 5 = ([], [ESearch ''q'' 5]) \<and>
   fetch_records
     \<lparr>esearch = (\<lambda>q n. Inr [''IdList'' \<mapsto> [''1'']]), efetch = (\<lambda>ids. Inl TypeError)\<rparr>
     ''q'' 5 = ([], [ESearch ''q'' 5, EFetch [''1'']]) \<and>
   fetch_records
     \<lparr>esearch = (\<lambda>q n. Inr [''IdList'' \<mapsto> [''1'']]), efetch = (\<lambda>ids. Inr [Map.empty])\<rparr>
     ''q'' 5 = ([Map.empty], [ESearch ''q'' 5, EFetch [''1'']]) \<and>
   run_journals
     \<lparr>esearch = (\<lambda>q n. Inl (OtherException ''HTTPError'')), efetch = (\<lambda>ids. Inr [Map.empty])\<rparr>
     5 [] [''Lancet''] = []"
proof -
  let ?fail = "\<lparr>esearch = (\<lambda>q n. Inl (OtherException ''HTTPError'')),
                 efetch = (\<lambda>ids. Inr [Map.empty :: raw_record])\<rparr>"
  let ?none = "\<lparr>esearch = (\<lambda>q n. Inr [''IdList'' \<mapsto> []]),
                 efetch = (\<lambda>ids. Inr [Map.empty :: raw_record])\<rparr>"
  let ?bad = "\<lparr>esearch = (\<lambda>q n. Inr [''IdList'' \<mapsto> [''1'']]),
                efetch = (\<lambda>ids. Inl TypeError :: py_exception + raw_record list)\<rparr>"
  let ?good = "\<lparr>esearch = (\<lambda>q n. Inr [''IdList'' \<mapsto> [''1'']]),
                 efetch = (\<lambda>ids. Inr [Map.empty :: raw_record])\<rparr>"
  have 1: "fetch_records ?fail ''q'' 5 = ([], [ESearch ''q'' 5])"
    using fetch_records_catches [of ?fail "''q''" 5] by simp
  have 2: "fetch_records ?none ''q'' 5 = ([], [ESearch ''q'' 5])"
    using fetch_records_catches [of ?none "''q''" 5] by simp
  have 3: "fetch_records ?bad ''q'' 5 = ([], [ESearch ''q'' 5, EFetch [''1'']])"
    using fetch_records_catches [of ?bad "''q''" 5] by simp
  have 4: "fetch_records ?good ''q'' 5 = ([Map.empty], [ESearch ''q'' 5, EFetch [''1'']])"
    using fetch_records_catches [of ?good "''q''" 5] by simp
  have "fetch_records ?fail (construct_query ''Lancet'') 5 =
      ([], [ESearch (construct_query ''Lancet'') 5])"
    using fetch_records_catches [of ?fail "construct_query ''Lancet''" 5] by simp
  then have 5: "run_journals ?fail 5 [] [''Lancet''] = []"
    using fetch_records_catches [of ?fail _ _ "''Lancet''" 5 "[]" "[]"] by simp
  from 1 2 3 4 5 show ?thesis by blast
qed

subsection \<open>The year\<close>

lemma four_digits_at_0:
  "four_digits_at (c # cs) 0 = (4 \<le> length (c # cs) \<and> list_all is_digit (take 4 (c # cs)))"
  by (simp add: four_digits_at_def)

lemma four_digits_at_Suc: "four_digits_at (c # cs) (Suc i) = four_digits_at cs i"
  by (simp add: four_digits_at_def add.commute)

lemma re_search_year_Cons:
  "re_search_year (c # cs) =
     (if four_digits_at (c # cs) 0 then Some (take 4 (c # cs)) else re_search_year cs)"
  by (simp only: re_search_year.simps four_digits_at_0)

lemma four_digits_at_Nil: "\<not> four_digits_at [] i"
  by (simp add: four_digits_at_def)

lemma re_search_year_first:
  "four_digits_at dp i \<Longrightarrow> (\<forall>j<i. \<not> four_digits_at dp j) \<Longrightarrow>
     re_search_year dp = Some (take 4 (drop i dp))"
proof (induction dp arbitrary: i)
  case Nil
  then show ?case by (simp add: four_digits_at_Nil)
next
  case (Cons c cs)
  show ?case
  proof (cases i)
    case 0
    then show ?thesis using Cons.prems(1) by (simp only: re_search_year_Cons if_True drop_0)
  next
    case (Suc k)
    have n0: "\<not> four_digits_at (c # cs) 0" using Cons.prems(2) Suc by blast
    have k: "four_digits_at cs k" using Cons.prems(1) Suc by (simp add: four_digits_at_Suc)
    have "\<forall>j<k. \<not> four_digits_at cs j"
    proof (intro allI impI)
      fix j assume "j < k"
      then have "Suc j < i" using Suc by simp
      then have "\<not> four_digits_at (c # cs) (Suc j)" using Cons.prems(2) by blast
      then show "\<not> four_digits_at cs j" by (simp add: four_digits_at_Suc)
    qed
    with k have "re_search_year cs = Some (take 4 (drop k cs))" by (rule Cons.IH)
    moreover have "re_search_year (c # cs) = re_search_year cs"
      using n0 by (simp only: re_search_year_Cons if_False)
    ultimately show ?thesis using Suc by simp
  qed
qed

lemma re_search_year_none:
  "(\<forall>i. \<not> four_digits_at dp i) \<Longrightarrow> re_search_year dp = None"
proof (induction dp)
  case Nil
  show ?case by simp
next
  case (Cons c cs)
  have n0: "\<not> four_digits_at (c # cs) 0" using Cons.prems by blast
  have "\<forall>i. \<not> four_digits_at cs i"
  proof
    fix i
    have "\<not> four_digits_at (c # cs) (Suc i)" using Cons.prems by blast
    then show "\<not> four_digits_at cs i" by (simp add: four_digits_at_Suc)
  qed
  then have "re_search_year cs = None" by (rule Cons.IH)
  moreover have "re_search_year (c # cs) = re_search_year cs"
    using n0 by (simp only: re_search_year_Cons if_False)
  ultimately show ?case by simp
qed

lemma process_fields_year:
  assumes "process_fields rec = Inr r"
  shows "\<exists>y. year_of (dict_get rec ''DP'' (Str [])) = Inr y \<and> map_of r ''Year'' = Some (Str y)"
  using assms
  by (auto simp: process_fields_def Let_def split: sum.splits)

text \<open>
  C3, as the program has it. For a record that is normalized, the year is the text
  of the four digits at the leftmost position of the date of publication where four
  digits stand, whatever follows them, so a longer run of digits gives its first
  four digits. The year is the empty string when the date is absent and when four
  digits stand nowhere in it.
\<close>

theorem year_is_first_four_digits:
  assumes "process_fields rec = Inr r"
  shows "(rec ''DP'' = None \<longrightarrow> map_of r ''Year'' = Some (Str [])) \<and>
    (\<forall>dp. rec ''DP'' = Some (Str dp) \<longrightarrow>
       (\<forall>i. four_digits_at dp i \<and> (\<forall>j<i. \<not> four_digits_at dp j) \<longrightarrow>
            map_of r ''Year'' = Some (Str (take 4 (drop i dp)))) \<and>
       ((\<forall>i. \<not> four_digits_at dp i) \<longrightarrow> map_of r ''Year'' = Some (Str [])))"
proof -
  from process_fields_year[OF assms] obtain y where
    y: "year_of (dict_get rec ''DP'' (Str [])) = Inr y" "map_of r ''Year'' = Some (Str y)"
    by blast
  have a: "rec ''DP'' = None \<longrightarrow> y = []"
    using y(1) by (auto simp: dict_get_def year_of_def)
  have b: "y = take 4 (drop i dp)"
    if "rec ''DP'' = Some (Str dp)" "four_digits_at dp i" "\<forall>j<i. \<not> four_digits_at dp j"
    for dp i
    using y(1) that(1) re_search_year_first[OF that(2,3)]
    by (simp add: dict_get_def year_of_def)
  have c: "y = []" if "rec ''DP'' = Some (Str dp)" "\<forall>i. \<not> four_digits_at dp i" for dp
    using y(1) that(1) re_search_year_none[OF that(2)]
    by (simp add: dict_get_def year_of_def)
  show ?thesis
    unfolding y(2)
  proof (intro conjI allI impI)
    assume "rec ''DP'' = None"
    then show "Some (Str y) = Some (Str [])" using a by simp
  next
    fix dp i
    assume "rec ''DP'' = Some (Str dp)"
      and "four_digits_at dp i \<and> (\<forall>j<i. \<not> four_digits_at dp j)"
    then show "Some (Str y) = Some (Str (take 4 (drop i dp)))" using b by simp
  next
    fix dp
    assume "rec ''DP'' = Some (Str dp)" and "\<forall>i. \<not> four_digits_at dp i"
    then show "Some (Str y) = Some (Str [])" using c by simp
  qed
qed


lemma returns_without_lid:
  assumes "rec ''LID'' = None" and "dict_get rec ''DP'' (Str []) = Str s"
  shows "process_fields rec = Inr (process_record rec)"
  using assms
  by (simp add: process_record_def process_fields_def dict_get_def year_of_def lid_doi_def
      Let_def)

text \<open>
  The dates \<^verbatim>\<open>2021 Jun 15\<close> and \<^verbatim>\<open>Jun 2021\<close> give the year 2021, and
  \<^verbatim>\<open>Jun 15\<close> and a missing date give the empty string.
\<close>

theorem year_is_first_four_digits_witness:
  "map_of (process_record [''DP'' \<mapsto> Str ''2021 Jun 15'']) ''Year'' = Some (Str ''2021'') \<and>
   map_of (process_record [''DP'' \<mapsto> Str ''Jun 2021'']) ''Year'' = Some (Str ''2021'') \<and>
   map_of (process_record [''DP'' \<mapsto> Str ''Jun 15'']) ''Year'' = Some (Str []) \<and>
   map_of (process_record Map.empty) ''Year'' = Some (Str [])"
proof -
  let ?r1 = "[''DP'' \<mapsto> Str ''2021 Jun 15'']"
  let ?r2 = "[''DP'' \<mapsto> Str ''Jun 2021'']"
  let ?r3 = "[''DP'' \<mapsto> Str ''Jun 15'']"
  have p1: "process_fields ?r1 = Inr (process_record ?r1)"
    by (rule returns_without_lid) (simp_all add: dict_get_def)
  have p2: "process_fields ?r2 = Inr (process_record ?r2)"
    by (rule returns_without_lid) (simp_all add: dict_get_def)
  have p3: "process_fields ?r3 = Inr (process_record ?r3)"
    by (rule returns_without_lid) (simp_all add: dict_get_def)
  have p4: "process_fields Map.empty = Inr (process_record Map.empty)"
    by (rule returns_without_lid) (simp_all add: dict_get_def)
  have f1: "four_digits_at ''2021 Jun 15'' 0 \<and> (\<forall>j<0. \<not> four_digits_at ''2021 Jun 15'' j)"
    by (simp add: four_digits_at_def is_digit_def)
  have l4: "j < 4 \<Longrightarrow> j = 0 \<or> j = 1 \<or> j = 2 \<or> j = 3" for j :: nat by arith
  have f2: "four_digits_at ''Jun 2021'' 4 \<and> (\<forall>j<4. \<not> four_digits_at ''Jun 2021'' j)"
    by (auto simp: four_digits_at_def is_digit_def dest!: l4)
  have l3: "j < 3 \<Longrightarrow> j = 0 \<or> j = 1 \<or> j = 2" for j :: nat by arith
  have f3: "\<forall>i. \<not> four_digits_at ''Jun 15'' i"
  proof
    fix i
    show "\<not> four_digits_at ''Jun 15'' i"
    proof (cases "i < 3")
      case True
      from l3[OF this] show ?thesis by (auto simp: four_digits_at_def is_digit_def)
    next
      case False
      then show ?thesis by (simp add: four_digits_at_def)
    qed
  qed
  have 1: "map_of (process_record ?r1) ''Year'' = Some (Str ''2021'')"
  proof -
    from year_is_first_four_digits [OF p1]
    have "\<forall>i. four_digits_at ''2021 Jun 15'' i \<and> (\<forall>j<i. \<not> four_digits_at ''2021 Jun 15'' j) \<longrightarrow>
        map_of (process_record ?r1) ''Year'' = Some (Str (take 4 (drop i ''2021 Jun 15'')))"
      by simp
    from this [rule_format, of 0] f1 show ?thesis by simp
  qed
  have 2: "map_of (process_record ?r2) ''Year'' = Some (Str ''2021'')"
  proof -
    from year_is_first_four_digits [OF p2]
    have "\<forall>i. four_digits_at ''Jun 2021'' i \<and> (\<forall>j<i. \<not> four_digits_at ''Jun 2021'' j) \<longrightarrow>
        map_of (process_record ?r2) ''Year'' = Some (Str (take 4 (drop i ''Jun 2021'')))"
      by simp
    from this [rule_format, of 4] f2 show ?thesis by simp
  qed
  have 3: "map_of (process_record ?r3) ''Year'' = Some (Str [])"
    using year_is_first_four_digits [OF p3] f3 by simp
  have 4: "map_of (process_record Map.empty) ''Year'' = Some (Str [])"
    using year_is_first_four_digits [OF p4] by simp
  from 1 2 3 4 show ?thesis by simp
qed

text \<open>
  C3, as it is stated, fails: the only run of digits of \<^verbatim>\<open>20215 Jun\<close> has five
  digits, so there is no run of exactly four digits and the stated year is empty,
  and the program gives the year 2021.
\<close>

theorem year_from_longer_digit_run:
  "map_of (process_record [''DP'' \<mapsto> Str ''20215 Jun'']) ''Year'' = Some (Str ''2021'') \<and>
   digit_runs ''20215 Jun'' = [''20215''] \<and> spec_year ''20215 Jun'' = []"
  by (simp add: process_record_def process_fields_def dict_get_def year_of_def lid_doi_def
      Let_def spec_year_def is_digit_def)

subsection \<open>The DOI\<close>

lemma prefix_take: "prefix p s \<longleftrightarrow> take (length p) s = p"
proof
  assume "prefix p s"
  then obtain zs where "s = p @ zs" by (auto simp: prefix_def)
  then show "take (length p) s = p" by simp
next
  assume "take (length p) s = p"
  then have "s = p @ drop (length p) s" by (metis append_take_drop_id)
  then show "prefix p s" by (metis prefixI)
qed

lemma takeWhile_nonempty: "takeWhile P xs \<noteq> [] \<longleftrightarrow> xs \<noteq> [] \<and> P (hd xs)"
  by (cases xs) simp_all

lemma doi_at_0:
  "doi_at s 0 =
     (prefix ''10.'' s \<and> takeWhile (\<lambda>x. \<not> is_space x) (drop 3 s) \<noteq> [])"
proof -
  have "drop 3 s \<noteq> [] \<and> \<not> is_space (hd (drop 3 s)) \<longleftrightarrow> 3 < length s \<and> \<not> is_space (s ! 3)"
    by (auto simp: hd_drop_conv_nth)
  moreover have "length ''10.'' = 3" by simp
  then have "prefix ''10.'' s \<longleftrightarrow> take 3 s = ''10.''" by (metis prefix_take)
  ultimately show ?thesis
    by (simp only: doi_at_def takeWhile_nonempty add_0 drop_0)
qed

lemma doi_at_Suc: "doi_at (c # cs) (Suc i) = doi_at cs i"
  by (simp add: doi_at_def add.commute)

lemma doi_at_Nil: "\<not> doi_at [] i"
  by (simp add: doi_at_def)

lemma re_search_doi_Cons:
  "re_search_doi (c # cs) =
     (if doi_at (c # cs) 0
      then Some (''10.'' @ takeWhile (\<lambda>x. \<not> is_space x) (drop 3 (c # cs)))
      else re_search_doi cs)"
  by (simp only: re_search_doi.simps doi_at_0)

lemma re_search_doi_first:
  "doi_at s i \<Longrightarrow> (\<forall>j<i. \<not> doi_at s j) \<Longrightarrow>
     re_search_doi s = Some (''10.'' @ takeWhile (\<lambda>x. \<not> is_space x) (drop (i + 3) s))"
proof (induction s arbitrary: i)
  case Nil
  then show ?case by (simp add: doi_at_Nil)
next
  case (Cons c cs)
  show ?case
  proof (cases i)
    case 0
    then show ?thesis using Cons.prems(1) by (simp only: re_search_doi_Cons if_True add_0)
  next
    case (Suc k)
    have n0: "\<not> doi_at (c # cs) 0" using Cons.prems(2) Suc by blast
    have k: "doi_at cs k" using Cons.prems(1) Suc by (simp add: doi_at_Suc)
    have "\<forall>j<k. \<not> doi_at cs j"
    proof (intro allI impI)
      fix j assume "j < k"
      then have "Suc j < i" using Suc by simp
      then have "\<not> doi_at (c # cs) (Suc j)" using Cons.prems(2) by blast
      then show "\<not> doi_at cs j" by (simp add: doi_at_Suc)
    qed
    with k have "re_search_doi cs =
        Some (''10.'' @ takeWhile (\<lambda>x. \<not> is_space x) (drop (k + 3) cs))"
      by (rule Cons.IH)
    moreover have "re_search_doi (c # cs) = re_search_doi cs"
      using n0 by (simp only: re_search_doi_Cons if_False)
    moreover have "drop (i + 3) (c # cs) = drop (k + 3) cs"
      unfolding Suc by (simp only: add_Suc drop_Suc_Cons)
    ultimately show ?thesis by (simp only:)
  qed
qed

lemma re_search_doi_none: "(\<forall>i. \<not> doi_at s i) \<Longrightarrow> re_search_doi s = None"
proof (induction s)
  case Nil
  show ?case by simp
next
  case (Cons c cs)
  have n0: "\<not> doi_at (c # cs) 0" using Cons.prems by blast
  have "\<forall>i. \<not> doi_at cs i"
  proof
    fix i
    have "\<not> doi_at (c # cs) (Suc i)" using Cons.prems by blast
    then show "\<not> doi_at cs i" by (simp add: doi_at_Suc)
  qed
  then have "re_search_doi cs = None" by (rule Cons.IH)
  moreover have "re_search_doi (c # cs) = re_search_doi cs"
    using n0 by (simp only: re_search_doi_Cons if_False)
  ultimately show ?case by simp
qed

lemma aid_list_doi_filter:
  "aid_list_doi es =
     (case filter (sublist ''[doi]'') es of [] \<Rightarrow> [] | e # rest \<Rightarrow> split_first '' [doi]'' e)"
  by (induction es) simp_all

lemma aid_list_doi_first:
  "list_all (\<lambda>x. \<not> sublist ''[doi]'' x) pre \<Longrightarrow> sublist ''[doi]'' e \<Longrightarrow>
     aid_list_doi (pre @ e # post) = split_first '' [doi]'' e"
  by (induction pre) simp_all

lemma split_first_no_sep: "\<not> sublist sep s \<Longrightarrow> split_first sep s = s"
  by (induction s) (simp_all add: sublist_Cons_right)

lemma split_first_decomp: "sublist sep s \<Longrightarrow> \<exists>rest. s = split_first sep s @ sep @ rest"
proof (induction s)
  case Nil
  then show ?case by simp
next
  case (Cons c cs)
  show ?case
  proof (cases "prefix sep (c # cs)")
    case True
    then show ?thesis by (auto simp: prefix_def)
  next
    case False
    then have "sublist sep cs" using Cons.prems by (simp add: sublist_Cons_right)
    then obtain rest where "cs = split_first sep cs @ sep @ rest" using Cons.IH by blast
    then have "c # cs = (c # split_first sep cs) @ sep @ rest" by simp
    then show ?thesis using False by auto
  qed
qed

lemma not_sublist_butlast: "sep \<noteq> [] \<Longrightarrow> \<not> sublist sep (butlast sep)"
proof
  assume n: "sep \<noteq> []" and "sublist sep (butlast sep)"
  then have "length sep \<le> length (butlast sep)" by (intro sublist_length_le)
  then have "length sep \<le> length sep - 1" by (simp only: length_butlast)
  moreover have "0 < length sep" using n by simp
  ultimately show False by arith
qed

lemma split_first_earliest:
  "sep \<noteq> [] \<Longrightarrow> sublist sep s \<Longrightarrow> \<not> sublist sep (split_first sep s @ butlast sep)"
proof (induction s)
  case Nil
  then show ?case by simp
next
  case (Cons c cs)
  show ?case
  proof (cases "prefix sep (c # cs)")
    case True
    then show ?thesis using Cons.prems(1) by (simp add: not_sublist_butlast)
  next
    case False
    then have s: "sublist sep cs" using Cons.prems(2) by (simp add: sublist_Cons_right)
    then have ih: "\<not> sublist sep (split_first sep cs @ butlast sep)"
      using Cons.IH Cons.prems(1) by blast
    from split_first_decomp[OF s] obtain rest where
      "cs = split_first sep cs @ sep @ rest" by blast
    then have "cs = split_first sep cs @ (butlast sep @ [last sep]) @ rest"
      using Cons.prems(1) by simp
    then have "c # cs = (c # split_first sep cs @ butlast sep) @ ([last sep] @ rest)"
      by simp
    then have p: "prefix (c # split_first sep cs @ butlast sep) (c # cs)"
      by (metis prefixI)
    have "\<not> prefix sep (c # split_first sep cs @ butlast sep)"
    proof
      assume "prefix sep (c # split_first sep cs @ butlast sep)"
      then have "prefix sep (c # cs)" using p by (rule prefix_order.order_trans)
      then show False using False by simp
    qed
    then have "\<not> sublist sep (c # split_first sep cs @ butlast sep)"
      using ih by (simp add: sublist_Cons_right)
    then show ?thesis using False by simp
  qed
qed


lemma process_fields_doi:
  assumes "process_fields rec = Inr r"
  shows "\<exists>d. lid_doi (dict_get rec ''LID'' (Str [])) = Inr d \<and>
     map_of r ''DOI'' =
       Some (Str (if d = [] then (case rec ''AID'' of None \<Rightarrow> d | Some aids \<Rightarrow> aid_doi aids)
                  else d))"
proof (cases "year_of (dict_get rec ''DP'' (Str []))")
  case (Inl e)
  then show ?thesis using assms by (simp add: process_fields_def Let_def)
next
  case y: (Inr year)
  show ?thesis
  proof (cases "lid_doi (dict_get rec ''LID'' (Str []))")
    case (Inl e)
    then show ?thesis using assms y by (simp add: process_fields_def Let_def)
  next
    case (Inr d)
    from assms have m: "map_of r ''DOI'' =
       Some (Str (if d = [] then (case rec ''AID'' of None \<Rightarrow> d | Some aids \<Rightarrow> aid_doi aids)
                  else d))"
      unfolding process_fields_def Let_def y Inr by auto
    show ?thesis
    proof (intro exI[of _ d] conjI)
      show "lid_doi (dict_get rec ''LID'' (Str [])) = Inr d" by (rule Inr)
      show "map_of r ''DOI'' =
       Some (Str (if d = [] then (case rec ''AID'' of None \<Rightarrow> d | Some aids \<Rightarrow> aid_doi aids)
                  else d))" by (rule m)
    qed
  qed
qed

lemma lid_doi_found:
  assumes "rec ''LID'' = Some (Str lid)" "doi_at lid i" "\<forall>j<i. \<not> doi_at lid j"
  shows "lid_doi (dict_get rec ''LID'' (Str [])) =
     Inr (''10.'' @ takeWhile (\<lambda>x. \<not> is_space x) (drop (i + 3) lid))"
proof -
  have "lid \<noteq> []" using assms(2) by (auto simp: doi_at_def)
  then show ?thesis
    using assms(1) re_search_doi_first[OF assms(2,3)]
    by (simp add: lid_doi_def dict_get_def)
qed

lemma lid_doi_nothing:
  assumes "rec ''LID'' = None \<or> rec ''LID'' = Some (Lst []) \<or>
     (\<exists>lid. rec ''LID'' = Some (Str lid) \<and> (\<forall>i. \<not> doi_at lid i))"
  shows "lid_doi (dict_get rec ''LID'' (Str [])) = Inr []"
  using assms
proof (elim disjE exE conjE)
  assume "rec ''LID'' = None"
  then show ?thesis by (simp add: lid_doi_def dict_get_def)
next
  assume "rec ''LID'' = Some (Lst [])"
  then show ?thesis by (simp add: lid_doi_def dict_get_def)
next
  fix lid
  assume l: "rec ''LID'' = Some (Str lid)" and n: "\<forall>i. \<not> doi_at lid i"
  from re_search_doi_none[OF n] l show ?thesis
    by (simp add: lid_doi_def dict_get_def)
qed

text \<open>
  C5, as the program has it. For a record that is normalized: when the
  link-identifier is a string in which \<^verbatim>\<open>10.\<close> stands before a character that is
  not white space, the DOI is that \<^verbatim>\<open>10.\<close> at the leftmost such position with
  every character after it up to the next white space, whatever the
  article-identifier holds. When the link-identifier is absent, empty or without
  such a place, the DOI comes from the article-identifier: empty when it is absent;
  for a string that contains \<^verbatim>\<open>[doi]\<close> and for the first entry of a list that
  contains \<^verbatim>\<open>[doi]\<close>, the text before the first \<^verbatim>\<open> [doi]\<close>, the marker with the
  blank before it (\<^verbatim>\<open>split_first\<close>); empty when no entry contains \<^verbatim>\<open>[doi]\<close>.
\<close>

theorem doi_two_stage_resolution:
  assumes "process_fields rec = Inr r"
  shows
    "(\<forall>lid i. rec ''LID'' = Some (Str lid) \<and> doi_at lid i \<and> (\<forall>j<i. \<not> doi_at lid j) \<longrightarrow>
        map_of r ''DOI'' =
          Some (Str (''10.'' @ takeWhile (\<lambda>x. \<not> is_space x) (drop (i + 3) lid)))) \<and>
     (rec ''LID'' = None \<or> rec ''LID'' = Some (Lst []) \<or>
      (\<exists>lid. rec ''LID'' = Some (Str lid) \<and> (\<forall>i. \<not> doi_at lid i)) \<longrightarrow>
        (rec ''AID'' = None \<longrightarrow> map_of r ''DOI'' = Some (Str [])) \<and>
        (\<forall>e. rec ''AID'' = Some (Str e) \<longrightarrow>
           map_of r ''DOI'' =
             Some (Str (if sublist ''[doi]'' e then split_first '' [doi]'' e else []))) \<and>
        (\<forall>es. rec ''AID'' = Some (Lst es) \<longrightarrow>
           map_of r ''DOI'' =
             Some (Str (case filter (sublist ''[doi]'') es of
                          [] \<Rightarrow> [] | e # rest \<Rightarrow> split_first '' [doi]'' e))))"
proof -
  from process_fields_doi[OF assms] obtain d where
    d: "lid_doi (dict_get rec ''LID'' (Str [])) = Inr d"
    and m: "map_of r ''DOI'' =
       Some (Str (if d = [] then (case rec ''AID'' of None \<Rightarrow> d | Some aids \<Rightarrow> aid_doi aids)
                  else d))"
    by blast
  show ?thesis
  proof (intro conjI allI impI)
    fix lid i
    assume "rec ''LID'' = Some (Str lid) \<and> doi_at lid i \<and> (\<forall>j<i. \<not> doi_at lid j)"
    then have "d = ''10.'' @ takeWhile (\<lambda>x. \<not> is_space x) (drop (i + 3) lid)"
      using lid_doi_found[of rec lid i] d by simp
    then show "map_of r ''DOI'' =
        Some (Str (''10.'' @ takeWhile (\<lambda>x. \<not> is_space x) (drop (i + 3) lid)))"
      using m by simp
  next
    assume a: "rec ''LID'' = None \<or> rec ''LID'' = Some (Lst []) \<or>
      (\<exists>lid. rec ''LID'' = Some (Str lid) \<and> (\<forall>i. \<not> doi_at lid i))"
      and "rec ''AID'' = None"
    then show "map_of r ''DOI'' = Some (Str [])"
      using m d lid_doi_nothing[of rec, OF a] by simp
  next
    fix e
    assume a: "rec ''LID'' = None \<or> rec ''LID'' = Some (Lst []) \<or>
      (\<exists>lid. rec ''LID'' = Some (Str lid) \<and> (\<forall>i. \<not> doi_at lid i))"
      and "rec ''AID'' = Some (Str e)"
    then show "map_of r ''DOI'' =
        Some (Str (if sublist ''[doi]'' e then split_first '' [doi]'' e else []))"
      using m d lid_doi_nothing[of rec, OF a] by (simp add: aid_doi_def)
  next
    fix es
    assume a: "rec ''LID'' = None \<or> rec ''LID'' = Some (Lst []) \<or>
      (\<exists>lid. rec ''LID'' = Some (Str lid) \<and> (\<forall>i. \<not> doi_at lid i))"
      and "rec ''AID'' = Some (Lst es)"
    then show "map_of r ''DOI'' =
        Some (Str (case filter (sublist ''[doi]'') es of
                     [] \<Rightarrow> [] | e # rest \<Rightarrow> split_first '' [doi]'' e))"
      using m d lid_doi_nothing[of rec, OF a] by (simp add: aid_doi_def aid_list_doi_filter)
  qed
qed

text \<open>
  C10. When the link-identifier gives no DOI: for a list, the first entry that
  contains \<^verbatim>\<open>[doi]\<close> gives the DOI, whatever comes after it; for a list entry and
  for a single string alike, the DOI is \<^verbatim>\<open>split_first\<close> of the entry at the
  separator \<^verbatim>\<open> [doi]\<close>, which is the text before the first occurrence of the
  separator when there is one, and the whole entry, marker included, when there
  is none.
\<close>

theorem doi_from_article_identifier:
  assumes "process_fields rec = Inr r"
    and "lid_doi (dict_get rec ''LID'' (Str [])) = Inr []"
  shows
    "(\<forall>pre e post. rec ''AID'' = Some (Lst (pre @ e # post)) \<and>
         list_all (\<lambda>x. \<not> sublist ''[doi]'' x) pre \<and> sublist ''[doi]'' e \<longrightarrow>
         map_of r ''DOI'' = Some (Str (split_first '' [doi]'' e))) \<and>
     (\<forall>e. rec ''AID'' = Some (Str e) \<and> sublist ''[doi]'' e \<longrightarrow>
         map_of r ''DOI'' = Some (Str (split_first '' [doi]'' e))) \<and>
     (\<forall>e. sublist '' [doi]'' e \<longrightarrow>
         (\<exists>rest. e = split_first '' [doi]'' e @ '' [doi]'' @ rest) \<and>
         \<not> sublist '' [doi]'' (split_first '' [doi]'' e @ '' [doi'')) \<and>
     (\<forall>e. \<not> sublist '' [doi]'' e \<longrightarrow> split_first '' [doi]'' e = e)"
proof -
  from process_fields_doi[OF assms(1)] assms(2)
  have m: "map_of r ''DOI'' =
       Some (Str (case rec ''AID'' of None \<Rightarrow> [] | Some aids \<Rightarrow> aid_doi aids))"
    by auto
  show ?thesis
  proof (intro conjI allI impI)
    fix pre e post
    assume "rec ''AID'' = Some (Lst (pre @ e # post)) \<and>
         list_all (\<lambda>x. \<not> sublist ''[doi]'' x) pre \<and> sublist ''[doi]'' e"
    then show "map_of r ''DOI'' = Some (Str (split_first '' [doi]'' e))"
      using m by (simp add: aid_doi_def aid_list_doi_first)
  next
    fix e
    assume "rec ''AID'' = Some (Str e) \<and> sublist ''[doi]'' e"
    then show "map_of r ''DOI'' = Some (Str (split_first '' [doi]'' e))"
      using m by (simp add: aid_doi_def)
  next
    fix e :: string
    assume "sublist '' [doi]'' e"
    then show "\<exists>rest. e = split_first '' [doi]'' e @ '' [doi]'' @ rest"
      by (rule split_first_decomp)
  next
    fix e :: string
    assume s: "sublist '' [doi]'' e"
    have "\<not> sublist '' [doi]'' (split_first '' [doi]'' e @ butlast '' [doi]'')"
      by (rule split_first_earliest [OF _ s]) simp
    then show "\<not> sublist '' [doi]'' (split_first '' [doi]'' e @ '' [doi'')" by simp
  next
    fix e :: string
    assume "\<not> sublist '' [doi]'' e"
    then show "split_first '' [doi]'' e = e" by (rule split_first_no_sep)
  qed
qed


lemma returns_row: "\<not> isl (process_fields rec) \<Longrightarrow> process_fields rec = Inr (process_record rec)"
  by (cases "process_fields rec") (simp_all add: process_record_def)

theorem doi_two_stage_resolution_witness:
  "map_of (process_record
     [''LID'' \<mapsto> Str ''10.1056/NEJMoa2035389 [doi]'', ''AID'' \<mapsto> Lst [''S0140 [doi]'']])
     ''DOI'' = Some (Str ''10.1056/NEJMoa2035389'') \<and>
   map_of (process_record
     [''AID'' \<mapsto> Lst [''S0140-6736(21)00001-0 [doi]'', ''10.1016/S0140-6736(21)00001-0 [pii]'']])
     ''DOI'' = Some (Str ''S0140-6736(21)00001-0'') \<and>
   map_of (process_record Map.empty) ''DOI'' = Some (Str [])"
proof -
  let ?r1 = "[''LID'' \<mapsto> Str ''10.1056/NEJMoa2035389 [doi]'', ''AID'' \<mapsto> Lst [''S0140 [doi]'']]"
  let ?r2 = "[''AID'' \<mapsto>
      Lst [''S0140-6736(21)00001-0 [doi]'', ''10.1016/S0140-6736(21)00001-0 [pii]'']]"
  have "\<not> isl (process_fields ?r1)" by code_simp
  then have p1: "process_fields ?r1 = Inr (process_record ?r1)" by (rule returns_row)
  have "\<not> isl (process_fields ?r2)" by code_simp
  then have p2: "process_fields ?r2 = Inr (process_record ?r2)" by (rule returns_row)
  have "\<not> isl (process_fields Map.empty)" by code_simp
  then have p3: "process_fields Map.empty = Inr (process_record Map.empty)"
    by (rule returns_row)
  have a: "doi_at ''10.1056/NEJMoa2035389 [doi]'' 0 \<and>
      (\<forall>j<0. \<not> doi_at ''10.1056/NEJMoa2035389 [doi]'' j)"
    by (simp add: doi_at_def is_space_def)
  have t: "takeWhile (\<lambda>x. \<not> is_space x) (drop (0 + 3) ''10.1056/NEJMoa2035389 [doi]'') =
      ''1056/NEJMoa2035389''"
    by code_simp
  have f: "(case filter (sublist ''[doi]'')
        [''S0140-6736(21)00001-0 [doi]'', ''10.1016/S0140-6736(21)00001-0 [pii]''] of
      [] \<Rightarrow> [] | e # rest \<Rightarrow> split_first '' [doi]'' e) = ''S0140-6736(21)00001-0''"
    by code_simp
  have 1: "map_of (process_record ?r1) ''DOI'' = Some (Str ''10.1056/NEJMoa2035389'')"
  proof -
    from doi_two_stage_resolution [OF p1]
    have "\<forall>lid i. ?r1 ''LID'' = Some (Str lid) \<and> doi_at lid i \<and> (\<forall>j<i. \<not> doi_at lid j) \<longrightarrow>
        map_of (process_record ?r1) ''DOI'' =
          Some (Str (''10.'' @ takeWhile (\<lambda>x. \<not> is_space x) (drop (i + 3) lid)))"
      by (rule conjunct1)
    from this [rule_format, of "''10.1056/NEJMoa2035389 [doi]''" 0] a
    have "map_of (process_record ?r1) ''DOI'' =
        Some (Str (''10.'' @
          takeWhile (\<lambda>x. \<not> is_space x) (drop (0 + 3) ''10.1056/NEJMoa2035389 [doi]'')))"
      by simp
    then show ?thesis unfolding t by simp
  qed
  have 2: "map_of (process_record ?r2) ''DOI'' = Some (Str ''S0140-6736(21)00001-0'')"
  proof -
    from doi_two_stage_resolution [OF p2]
    have "\<forall>es. ?r2 ''AID'' = Some (Lst es) \<longrightarrow>
           map_of (process_record ?r2) ''DOI'' =
             Some (Str (case filter (sublist ''[doi]'') es of
                          [] \<Rightarrow> [] | e # rest \<Rightarrow> split_first '' [doi]'' e))"
      by simp
    from this [rule_format,
        of "[''S0140-6736(21)00001-0 [doi]'', ''10.1016/S0140-6736(21)00001-0 [pii]'']"]
    show ?thesis unfolding f by simp
  qed
  have 3: "map_of (process_record Map.empty) ''DOI'' = Some (Str [])"
    using doi_two_stage_resolution [OF p3] by simp
  from 1 2 3 show ?thesis by simp
qed

text \<open>
  C5, as it is stated, fails: the article-identifier \<^verbatim>\<open>10.1000/x[doi]\<close> contains
  the marker \<^verbatim>\<open>[doi]\<close> and the text before the marker is \<^verbatim>\<open>10.1000/x\<close>, but the
  DOI is the whole entry, marker included.
\<close>

theorem doi_keeps_unspaced_marker:
  "map_of (process_record [''AID'' \<mapsto> Str ''10.1000/x[doi]'']) ''DOI'' =
     Some (Str ''10.1000/x[doi]'') \<and>
   sublist ''[doi]'' ''10.1000/x[doi]'' \<and>
   ''10.1000/x[doi]'' = ''10.1000/x'' @ ''[doi]''"
  by code_simp

theorem doi_from_article_identifier_witness:
  "map_of (process_record
     [''AID'' \<mapsto> Lst [''PMC123 [pmc]'', ''10.1000/a [doi]'', ''10.1000/b [doi]'']])
     ''DOI'' = Some (Str ''10.1000/a'') \<and>
   map_of (process_record [''AID'' \<mapsto> Str ''10.1000/x[doi]'']) ''DOI'' =
     Some (Str ''10.1000/x[doi]'')"
proof -
  let ?r1 = "[''AID'' \<mapsto> Lst [''PMC123 [pmc]'', ''10.1000/a [doi]'', ''10.1000/b [doi]'']]"
  let ?r2 = "[''AID'' \<mapsto> Str ''10.1000/x[doi]'']"
  have "\<not> isl (process_fields ?r1)" by code_simp
  then have p1: "process_fields ?r1 = Inr (process_record ?r1)" by (rule returns_row)
  have "\<not> isl (process_fields ?r2)" by code_simp
  then have p2: "process_fields ?r2 = Inr (process_record ?r2)" by (rule returns_row)
  have l1: "lid_doi (dict_get ?r1 ''LID'' (Str [])) = Inr []"
    by (simp add: lid_doi_def dict_get_def)
  have l2: "lid_doi (dict_get ?r2 ''LID'' (Str [])) = Inr []"
    by (simp add: lid_doi_def dict_get_def)
  have s1: "list_all (\<lambda>x. \<not> sublist ''[doi]'' x) [''PMC123 [pmc]''] \<and>
      sublist ''[doi]'' ''10.1000/a [doi]'' \<and>
      split_first '' [doi]'' ''10.1000/a [doi]'' = ''10.1000/a''"
    by code_simp
  have s2: "sublist ''[doi]'' ''10.1000/x[doi]'' \<and> \<not> sublist '' [doi]'' ''10.1000/x[doi]''"
    by code_simp
  have 1: "map_of (process_record ?r1) ''DOI'' = Some (Str ''10.1000/a'')"
  proof -
    from doi_from_article_identifier [OF p1 l1]
    have "\<forall>pre e post. ?r1 ''AID'' = Some (Lst (pre @ e # post)) \<and>
         list_all (\<lambda>x. \<not> sublist ''[doi]'' x) pre \<and> sublist ''[doi]'' e \<longrightarrow>
         map_of (process_record ?r1) ''DOI'' = Some (Str (split_first '' [doi]'' e))"
      by (rule conjunct1)
    from this [rule_format, of "[''PMC123 [pmc]'']" "''10.1000/a [doi]''" "[''10.1000/b [doi]'']"]
      s1
    show ?thesis by simp
  qed
  have 2: "map_of (process_record ?r2) ''DOI'' = Some (Str ''10.1000/x[doi]'')"
  proof -
    from doi_from_article_identifier [OF p2 l2]
    have a: "\<forall>e. ?r2 ''AID'' = Some (Str e) \<and> sublist ''[doi]'' e \<longrightarrow>
         map_of (process_record ?r2) ''DOI'' = Some (Str (split_first '' [doi]'' e))"
      and b: "\<forall>e. \<not> sublist '' [doi]'' e \<longrightarrow> split_first '' [doi]'' e = e"
      by blast+
    from a [rule_format, of "''10.1000/x[doi]''"] b [rule_format, of "''10.1000/x[doi]''"] s2
    show ?thesis by simp
  qed
  from 1 2 show ?thesis by simp
qed

end
